theory Spec2Isabelle
  imports Main
begin

chapter \<open>Models of the components\<close>

section \<open>Nested tree control (NestedTreeControl)\<close>

text \<open>
  A data node of type \<open>T\<close> together with what the constructor argument \<open>getChildren\<close>
  answers for it. \<open>getChildren\<close> may answer with an array, with an Observable, or with
  \<open>undefined\<close>/\<open>null\<close>. The subscription in \<open>_getDescendants\<close> is
  \<open>pipe(take(1), filter(Boolean))\<close>: only the first emission counts and only when it is
  truthy (an empty array is truthy). An Observable is therefore represented by what it
  emits while \<open>subscribe\<close> runs: \<open>ObservableNow (Some cs)\<close> for an array emitted at once,
  \<open>ObservableNow None\<close> for a falsy first emission and \<open>ObservableLater\<close> for one that
  emits nothing before \<open>subscribe\<close> returns.
\<close>

datatype 'b children =
    Array "'b list"
  | ObservableNow "'b list option"
  | ObservableLater
  | Absent

datatype 'a node = Node (payload: 'a) (getChildren: "'a node children")

text \<open>
  \<open>_getDescendants(descendants, dataNode)\<close> pushes onto the array it is handed; the
  array is passed in and returned here. \<open>forEach\<close> and \<open>for ... of\<close> are left folds.
\<close>

fun getDescendants_helper :: "'a node list \<Rightarrow> 'a node \<Rightarrow> 'a node list" where
  "getDescendants_helper descendants (Node d childrenNodes) =
     (let descendants = descendants @ [Node d childrenNodes] in
      case childrenNodes of
        Array cs \<Rightarrow> fold (\<lambda>child acc. getDescendants_helper acc child) cs descendants
      | ObservableNow (Some cs) \<Rightarrow>
          fold (\<lambda>child acc. getDescendants_helper acc child) cs descendants
      | ObservableNow None \<Rightarrow> descendants
      | ObservableLater \<Rightarrow> descendants
      | Absent \<Rightarrow> descendants)"

text \<open>\<open>xs.splice(i)\<close> returns the elements of \<open>xs\<close> from index \<open>i\<close> on.\<close>

definition splice_from :: "nat \<Rightarrow> 'b list \<Rightarrow> 'b list" where
  "splice_from i xs = drop i xs"

definition getDescendants :: "'a node \<Rightarrow> 'a node list" where
  "getDescendants dataNode = splice_from 1 (getDescendants_helper [] dataNode)"

text \<open>
  Modelled from the spec: \<open>SelectionModel\<close> (cdk/collections) and \<open>BaseTreeControl\<close>
  are not among the sources. The expansion model is the set of selected values;
  \<open>clear()\<close> deselects everything and \<open>select(...values)\<close> adds its arguments.
  \<open>_trackByValue\<close> (the \<open>trackBy\<close> option applied to a node, the node itself when no
  option is given) is the field \<open>trackByValue\<close> of the control.
\<close>

record 'k SelectionModel =
  selection :: "'k set"

definition clear :: "'k SelectionModel \<Rightarrow> 'k SelectionModel" where
  "clear m = m\<lparr>selection := {}\<rparr>"

definition select :: "'k list \<Rightarrow> 'k SelectionModel \<Rightarrow> 'k SelectionModel" where
  "select vs m = m\<lparr>selection := selection m \<union> set vs\<rparr>"

record ('a, 'k) NestedTreeControl =
  dataNodes :: "'a node list"
  trackByValue :: "'a node \<Rightarrow> 'k"
  expansionModel :: "'k SelectionModel"

text \<open>\<open>reduce\<close> with an initial accumulator is a left fold.\<close>

definition expandAll :: "('a, 'k) NestedTreeControl \<Rightarrow> ('a, 'k) NestedTreeControl" where
  "expandAll tc =
     (let m = clear (expansionModel tc);
          allNodes = foldl (\<lambda>accumulator dataNode.
                        accumulator @ getDescendants dataNode @ [dataNode]) [] (dataNodes tc)
      in tc\<lparr>expansionModel := select (map (trackByValue tc) allNodes) m\<rparr>)"

subsection \<open>What the claims call descendants\<close>

text \<open>
  The hypothesis of the tree claims: \<open>getChildren\<close> answers with a plain array for the
  node and for every node below it.
\<close>

fun arrays_at_every_level :: "'a node \<Rightarrow> bool" where
  "arrays_at_every_level (Node d cs) =
     (case cs of Array xs \<Rightarrow> list_all arrays_at_every_level xs | _ \<Rightarrow> False)"

text \<open>
  Depth-first preorder of a subtree, written from the words of the claim and not from
  the code: a node, then the preorder of each child from left to right. The strict
  descendants are the preorders of the children, without the node.
\<close>

fun spec_preorder :: "'a node \<Rightarrow> 'a node list" where
  "spec_preorder (Node d cs) =
     Node d cs # (case cs of Array xs \<Rightarrow> concat (map spec_preorder xs) | _ \<Rightarrow> [])"

definition spec_strict_descendants :: "'a node \<Rightarrow> 'a node list" where
  "spec_strict_descendants n =
     (case getChildren n of Array xs \<Rightarrow> concat (map spec_preorder xs) | _ \<Rightarrow> [])"

definition example_tree :: "nat node" where
  "example_tree = Node 1 (Array [Node 2 (Array [Node 3 (Array [])]), Node 4 (Array [])])"

definition example_control :: "(nat, nat) NestedTreeControl" where
  "example_control =
     \<lparr>dataNodes = [Node 1 (Array [Node 2 (Array [])]), Node 3 (Array [])],
      trackByValue = payload,
      expansionModel = \<lparr>selection = {7, 9}\<rparr>\<rparr>"

section \<open>Accordion items (CdkAccordionItem)\<close>

text \<open>
  Modelled from the spec: the class \<open>CdkAccordion\<close> (accordion.ts) is not among the
  sources. Of the accordion it is hosted in, an item reads the id and the \<open>multi\<close>
  flag, and it subscribes to \<open>_openCloseAllActions\<close>. Items of one accordion hold
  the same value.
\<close>

record CdkAccordion =
  acc_id :: string
  multi :: bool

text \<open>
  An item: \<open>item_id\<close> is the field \<open>id\<close>, \<open>expanded\<close> the private \<open>_expanded\<close>,
  \<open>disabled\<close> the private \<open>_disabled\<close>; \<open>accordion\<close> is \<open>None\<close> for an item outside
  any accordion. The inputs are booleans already, so \<open>coerceBooleanProperty\<close> is the
  identity.
\<close>

record CdkAccordionItem =
  item_id :: string
  accordion :: "CdkAccordion option"
  expanded :: bool
  disabled :: bool

text \<open>What an item sends out: its three emitters and the change detector's mark.\<close>

datatype emission =
    ExpandedChange string bool
  | Opened string
  | Closed string
  | MarkForCheck string

text \<open>
  All items that share one \<open>UniqueSelectionDispatcher\<close>, in the order their
  constructors ran, and everything emitted so far. An item is addressed by its index.
\<close>

record page =
  items :: "CdkAccordionItem list"
  emitted :: "emission list"

definition emit :: "emission \<Rightarrow> page \<Rightarrow> page" where
  "emit e w = w\<lparr>emitted := emitted w @ [e]\<rparr>"

text \<open>
  Modelled from the spec: \<open>UniqueSelectionDispatcher\<close> (cdk/collections) is not among
  the sources. Its \<open>notify\<close> calls every registered listener with the id and the
  name, in the order of registration; every item registers one listener when it is
  constructed, so the listeners are those of the items of the page.

  The other two functions are from the source: \<open>expanded_set e i\<close> is the setter
  \<open>expanded = e\<close> of item \<open>i\<close>, and \<open>listener j\<close> is the callback item \<open>j\<close> hands
  to \<open>listen\<close> in its constructor. The setter calls the dispatcher only when it
  expands, and a listener only ever collapses, which is what the termination measure
  says.
\<close>

function expanded_set :: "bool \<Rightarrow> nat \<Rightarrow> page \<Rightarrow> page"
  and listener :: "nat \<Rightarrow> string \<Rightarrow> string \<Rightarrow> page \<Rightarrow> page"
  and notify :: "string \<Rightarrow> string \<Rightarrow> page \<Rightarrow> page"
where
  "expanded_set e i w =
     (if i < length (items w) then
        (let this = items w ! i in
         if expanded this \<noteq> e then
           (let w = w\<lparr>items := (items w)[i := this\<lparr>expanded := e\<rparr>]\<rparr>;
                w = emit (ExpandedChange (item_id this) e) w;
                w = (if e then
                       (let w = emit (Opened (item_id this)) w;
                            accordionId = (case accordion this of
                                             Some a \<Rightarrow> acc_id a
                                           | None \<Rightarrow> item_id this)
                        in notify (item_id this) accordionId w)
                     else emit (Closed (item_id this)) w)
            in emit (MarkForCheck (item_id this)) w)
         else w)
      else w)"
| "listener j ident accordionId w =
     (if j < length (items w) then
        (let this = items w ! j in
         case accordion this of
           Some a \<Rightarrow>
             if \<not> multi a \<and> acc_id a = accordionId \<and> item_id this \<noteq> ident
             then expanded_set False j w else w
         | None \<Rightarrow> w)
      else w)"
| "notify ident name w = fold (\<lambda>j. listener j ident name) [0..<length (items w)] w"
  by pat_completeness auto
termination
  by (relation "measure (\<lambda>x. case x of
          Inl (e, _, _) \<Rightarrow> if e then 3 else 0
        | Inr (Inl _) \<Rightarrow> 1
        | Inr (Inr _) \<Rightarrow> 2)") auto

definition toggle :: "nat \<Rightarrow> page \<Rightarrow> page" where
  "toggle i w =
     (if i < length (items w) \<and> \<not> disabled (items w ! i)
      then expanded_set (\<not> expanded (items w ! i)) i w else w)"

definition close :: "nat \<Rightarrow> page \<Rightarrow> page" where
  "close i w =
     (if i < length (items w) \<and> \<not> disabled (items w ! i) then expanded_set False i w else w)"

definition "open" :: "nat \<Rightarrow> page \<Rightarrow> page" where
  "open i w =
     (if i < length (items w) \<and> \<not> disabled (items w ! i) then expanded_set True i w else w)"

text \<open>
  The callback of \<open>_subscribeToOpenCloseAllActions\<close>: what item \<open>i\<close> does when the
  accordion sends \<open>expanded\<close> on \<open>_openCloseAllActions\<close> (\<open>openAll\<close> sends true,
  \<open>closeAll\<close> false).
\<close>

definition openCloseAllAction :: "nat \<Rightarrow> bool \<Rightarrow> page \<Rightarrow> page" where
  "openCloseAllAction i e w =
     (if i < length (items w) \<and> \<not> disabled (items w ! i) then expanded_set e i w else w)"

text \<open>The condition under which a listener collapses its item.\<close>

definition listens :: "CdkAccordionItem \<Rightarrow> string \<Rightarrow> string \<Rightarrow> bool" where
  "listens this ident accordionId =
     (case accordion this of
        Some a \<Rightarrow> \<not> multi a \<and> acc_id a = accordionId \<and> item_id this \<noteq> ident
      | None \<Rightarrow> False)"

definition example_accordion :: CdkAccordion where
  "example_accordion = \<lparr>acc_id = ''cdk-accordion-0'', multi = False\<rparr>"

definition example_page :: page where
  "example_page =
     \<lparr>items =
        [\<lparr>item_id = ''cdk-accordion-child-0'', accordion = Some example_accordion,
          expanded = True, disabled = True\<rparr>,
         \<lparr>item_id = ''cdk-accordion-child-1'', accordion = Some example_accordion,
          expanded = False, disabled = False\<rparr>],
      emitted = []\<rparr>"

section \<open>Stylesheet migration of input names (InputNamesMigration)\<close>

text \<open>
  An entry of the \<open>inputNames\<close> upgrade data (\<open>limitedTo\<close> is read by
  \<open>visitTemplate\<close> only) and a resolved stylesheet.
\<close>

record InputNameUpgradeData =
  replace :: string
  replaceWith :: string

record ResolvedResource =
  content :: string
  start :: nat
  filePath :: string

text \<open>
  Modelled from the spec: the update recorder behind \<open>fileSystem.edit(filePath)\<close> is
  not among the sources. The edits requested for a file are kept in a log, in the
  order of the calls: \<open>remove(start, width)\<close> and \<open>insertRight(start, text)\<close>.
\<close>

datatype edit = Remove nat nat | InsertRight nat string

type_synonym edit_log = "(string \<times> edit) list"

text \<open>
  Modelled from the spec: \<open>findAllSubstringIndices\<close> (typescript/literal) is not among
  the sources. It answers with the offsets of every occurrence of \<open>search\<close> in
  \<open>input\<close>, in increasing order.
\<close>

definition findAllSubstringIndices :: "string \<Rightarrow> string \<Rightarrow> nat list" where
  "findAllSubstringIndices input search =
     filter (\<lambda>i. take (length search) (drop i input) = search) [0..<length input]"

definition replaceInputName :: "string \<Rightarrow> nat \<Rightarrow> nat \<Rightarrow> string \<Rightarrow> edit_log \<Rightarrow> edit_log" where
  "replaceInputName path startOffset width newName log =
     log @ [(path, Remove startOffset width), (path, InsertRight startOffset newName)]"

definition visitStylesheet ::
  "InputNameUpgradeData list \<Rightarrow> ResolvedResource \<Rightarrow> edit_log \<Rightarrow> edit_log" where
  "visitStylesheet data stylesheet log =
     fold (\<lambda>name log.
             (let currentSelector = ''['' @ replace name @ '']'';
                  updatedSelector = ''['' @ replaceWith name @ '']''
              in fold (\<lambda>startOffset log. replaceInputName (filePath stylesheet) startOffset
                                     (length currentSelector) updatedSelector log)
                      (map (\<lambda>offset. start stylesheet + offset)
                           (findAllSubstringIndices (content stylesheet) currentSelector))
                      log))
          data log"

text \<open>
  From the words of the claim: \<open>search\<close> occurs in \<open>input\<close> at offset \<open>i\<close>, and the
  two edits that replace the selector of an entry at offset \<open>i\<close>.
\<close>

definition spec_occurs_at :: "string \<Rightarrow> string \<Rightarrow> nat \<Rightarrow> bool" where
  "spec_occurs_at input search i =
     (i + length search \<le> length input \<and> (\<forall>j < length search. input ! (i + j) = search ! j))"

definition spec_replacement :: "ResolvedResource \<Rightarrow> InputNameUpgradeData \<Rightarrow> nat \<Rightarrow> edit_log" where
  "spec_replacement stylesheet name i =
     [(filePath stylesheet, Remove (start stylesheet + i) (length (''['' @ replace name @ '']''))),
      (filePath stylesheet, InsertRight (start stylesheet + i) (''['' @ replaceWith name @ '']''))]"

definition spec_all_replacements :: "ResolvedResource \<Rightarrow> InputNameUpgradeData \<Rightarrow> edit_log" where
  "spec_all_replacements stylesheet name =
     concat (map (spec_replacement stylesheet name)
               (findAllSubstringIndices (content stylesheet) (''['' @ replace name @ '']'')))"

definition example_stylesheet :: ResolvedResource where
  "example_stylesheet =
     \<lparr>content = ''a[x]{} b[x],c[y]{}'', start = 100, filePath = ''app.css''\<rparr>"

definition example_name :: InputNameUpgradeData where
  "example_name = \<lparr>replace = ''x'', replaceWith = ''xx''\<rparr>"

section \<open>Typing into an element (typeInElement)\<close>

text \<open>
  Strings are lists of characters; a character stands for one UTF-16 code unit below
  256.

  The element as the function reads and writes it: its node name, its \<open>type\<close>
  attribute (\<open>None\<close> when \<open>getAttribute\<close> answers null) and its \<open>value\<close> property.
  What an assignment to \<open>value\<close> leaves in the property is the browser's business
  and differs from element to element (an input of type number stores the empty
  string for what is no number, a file input throws, a plain element keeps the
  string): \<open>assign s\<close> is what \<open>value\<close> reads after \<open>s\<close> was assigned, and \<open>None\<close>
  when the setter throws.
\<close>

record Element =
  nodeName :: string
  typeAttribute :: "string option"
  elementValue :: string
  assign :: "string \<Rightarrow> string option"

text \<open>
  The two string functions of the language that the function calls:
  \<open>s.toLowerCase()\<close> and \<open>c.toUpperCase().charCodeAt(0)\<close> for a string \<open>c\<close> of one
  character. They follow the Unicode case mappings and are taken as they are.
\<close>

record js_engine =
  toLowerCase :: "string \<Rightarrow> string"
  upperCaseCharCode :: "char \<Rightarrow> nat"

record ModifierKeys =
  control :: bool
  alt :: bool
  shift :: bool
  meta :: bool

definition noModifiers :: ModifierKeys where
  "noModifiers = \<lparr>control = False, alt = False, shift = False, meta = False\<rparr>"

record KeyData =
  keyCode :: "nat option"
  key :: "string option"

text \<open>
  An argument after the element: a string, or an object with optional \<open>keyCode\<close> and
  \<open>key\<close>. An object with neither is a set of modifiers when it comes first.
\<close>

datatype keys_arg = Str string | Obj "nat option" "string option" ModifierKeys

text \<open>
  Modelled from the spec: \<open>triggerFocus\<close>, \<open>dispatchKeyboardEvent\<close> and
  \<open>dispatchFakeEvent\<close> are imported from files that are not among the sources. Each
  call is recorded as one effect with its arguments, in the order of the calls,
  together with the strings assigned to \<open>element.value\<close>.
\<close>

datatype effect =
    TriggerFocus
  | KeyboardEvent string "nat option" "string option" ModifierKeys
  | FakeEvent string
  | ValueAssigned string

text \<open>
  What the function can throw: a TypeError of its own making, and whatever the setter
  of \<open>value\<close> throws.
\<close>

datatype js_error = TypeError | ValueSetterError

record typing_state =
  element :: Element
  effects :: "effect list"

definition isTextInput :: "js_engine \<Rightarrow> Element \<Rightarrow> bool" where
  "isTextInput js el =
     (let nodeName = toLowerCase js (nodeName el)
      in nodeName = ''input'' \<or> nodeName = ''textarea'')"

definition incrementalInputTypes :: "string set" where
  "incrementalInputTypes =
     {''text'', ''email'', ''hidden'', ''password'', ''search'', ''tel'', ''url''}"

text \<open>
  Modelled from the spec: the constant \<open>PERIOD\<close> is imported from cdk/keycodes, which
  is not among the sources; it is the key code of the period key.
\<close>

definition PERIOD :: nat where
  "PERIOD = 190"

definition triggerFocus :: "typing_state \<Rightarrow> typing_state" where
  "triggerFocus st = st\<lparr>effects := effects st @ [TriggerFocus]\<rparr>"

definition dispatchKeyboardEvent ::
  "string \<Rightarrow> nat option \<Rightarrow> string option \<Rightarrow> ModifierKeys \<Rightarrow> typing_state \<Rightarrow> typing_state" where
  "dispatchKeyboardEvent ty kc k modifiers st =
     st\<lparr>effects := effects st @ [KeyboardEvent ty kc k modifiers]\<rparr>"

definition dispatchFakeEvent :: "string \<Rightarrow> typing_state \<Rightarrow> typing_state" where
  "dispatchFakeEvent ty st = st\<lparr>effects := effects st @ [FakeEvent ty]\<rparr>"

text \<open>
  \<open>element.value = v\<close>: the setter of the element decides what is stored, or throws.
\<close>

definition assignValue :: "string \<Rightarrow> typing_state \<Rightarrow> js_error + typing_state" where
  "assignValue v st =
     (case assign (element st) v of
        None \<Rightarrow> Inl ValueSetterError
      | Some stored \<Rightarrow>
          Inr (st\<lparr>element := (element st)\<lparr>elementValue := stored\<rparr>,
                  effects := effects st @ [ValueAssigned v]\<rparr>))"

text \<open>The first argument is the modifiers when it is an object without \<open>keyCode\<close> and \<open>key\<close>.\<close>

definition splitModifiers :: "keys_arg \<Rightarrow> keys_arg list \<Rightarrow> ModifierKeys \<times> keys_arg list" where
  "splitModifiers first modifiersAndKeys =
     (case first of
        Obj None None m \<Rightarrow> (m, drop 1 modifiersAndKeys)
      | _ \<Rightarrow> (noModifiers, modifiersAndKeys))"

text \<open>A string is split into one key per character; \<open>reduce\<close> with \<open>concat\<close> flattens.\<close>

definition keysOf :: "js_engine \<Rightarrow> keys_arg list \<Rightarrow> KeyData list" where
  "keysOf js rest =
     foldl (\<lambda>arr k. arr @ k) []
       (map (\<lambda>k. case k of
                 Str s \<Rightarrow> map (\<lambda>c. \<lparr>keyCode = Some (upperCaseCharCode js c),
                                     key = Some [c]\<rparr>) s
               | Obj kc ky m \<Rightarrow> [\<lparr>keyCode = kc, key = ky\<rparr>]) rest)"

text \<open>\<open>element.getAttribute('type') || 'text'\<close>: null and the empty string are falsy.\<close>

definition inputTypeOf :: "Element \<Rightarrow> string" where
  "inputTypeOf el =
     (case typeAttribute el of
        None \<Rightarrow> ''text''
      | Some t \<Rightarrow> if t = [] then ''text'' else t)"

definition enterValueIncrementally :: "string \<Rightarrow> KeyData list \<Rightarrow> bool" where
  "enterValueIncrementally inputType keys =
     (if inputType = ''number'' \<and> length keys > 0
      then list_all (\<lambda>k. key k \<noteq> Some ''.'' \<and> keyCode k \<noteq> Some PERIOD) keys
      else inputType \<in> incrementalInputTypes)"

text \<open>\<open>key.key || ''\<close>.\<close>

definition keyOrEmpty :: "KeyData \<Rightarrow> string" where
  "keyOrEmpty k = (case key k of None \<Rightarrow> [] | Some s \<Rightarrow> s)"

text \<open>
  The body of the loop over the keys. \<open>value += key.key\<close> reads the property, appends
  and assigns; a throwing setter ends the function.
\<close>

definition typeKey ::
  "bool \<Rightarrow> bool \<Rightarrow> ModifierKeys \<Rightarrow> KeyData \<Rightarrow> typing_state \<Rightarrow> js_error + typing_state" where
  "typeKey isInput incrementally modifiers k st =
     (let st = dispatchKeyboardEvent ''keydown'' (keyCode k) (key k) modifiers st;
          st = dispatchKeyboardEvent ''keypress'' (keyCode k) (key k) modifiers st;
          r = (if isInput \<and> keyOrEmpty k \<noteq> [] \<and> length (keyOrEmpty k) = 1
               then (if incrementally
                     then (case assignValue (elementValue (element st) @ keyOrEmpty k) st of
                             Inl e \<Rightarrow> Inl e
                           | Inr st \<Rightarrow> Inr (dispatchFakeEvent ''input'' st))
                     else Inr st)
               else Inr st)
      in case r of
           Inl e \<Rightarrow> Inl e
         | Inr st \<Rightarrow> Inr (dispatchKeyboardEvent ''keyup'' (keyCode k) (key k) modifiers st))"

text \<open>The loop \<open>for (const key of keys)\<close>.\<close>

fun typeKeys ::
  "bool \<Rightarrow> bool \<Rightarrow> ModifierKeys \<Rightarrow> KeyData list \<Rightarrow> typing_state \<Rightarrow> js_error + typing_state" where
  "typeKeys isInput incrementally modifiers [] st = Inr st"
| "typeKeys isInput incrementally modifiers (k # ks) st =
     (case typeKey isInput incrementally modifiers k st of
        Inl e \<Rightarrow> Inl e
      | Inr st \<Rightarrow> typeKeys isInput incrementally modifiers ks st)"

text \<open>
  With no argument after the element, \<open>first\<close> is undefined and reading
  \<open>first.keyCode\<close> throws a TypeError.
\<close>

definition typeInElement :: "js_engine \<Rightarrow> Element \<Rightarrow> keys_arg list \<Rightarrow> js_error + typing_state" where
  "typeInElement js el modifiersAndKeys =
     (case modifiersAndKeys of
        [] \<Rightarrow> Inl TypeError
      | first # _ \<Rightarrow>
          (let (modifiers, rest) = splitModifiers first modifiersAndKeys;
               isInput = isTextInput js el;
               inputType = inputTypeOf el;
               keys = keysOf js rest;
               incrementally = enterValueIncrementally inputType keys;
               st = triggerFocus \<lparr>element = el, effects = []\<rparr>
           in case (if \<not> incrementally
                    then assignValue (foldl (\<lambda>v k. v @ keyOrEmpty k) [] keys) st
                    else Inr st) of
                Inl e \<Rightarrow> Inl e
              | Inr st \<Rightarrow>
                  (case typeKeys isInput incrementally modifiers keys st of
                     Inl e \<Rightarrow> Inl e
                   | Inr st \<Rightarrow>
                       Inr (if \<not> incrementally then dispatchFakeEvent ''input'' st else st))))"

subsection \<open>The two ways of entering a value, from the words of the claim\<close>

text \<open>
  A period key is one whose \<open>key\<close> is the period or whose \<open>keyCode\<close> is \<open>PERIOD\<close>.
  The condition of the claim, with the type attribute defaulting to \<open>text\<close>.
\<close>

definition spec_period_key :: "KeyData \<Rightarrow> bool" where
  "spec_period_key k = (key k = Some ''.'' \<or> keyCode k = Some PERIOD)"

definition spec_enters_incrementally :: "Element \<Rightarrow> KeyData list \<Rightarrow> bool" where
  "spec_enters_incrementally el keys =
     (inputTypeOf el \<in> {''text'', ''email'', ''hidden'', ''password'', ''search'', ''tel'', ''url''}
      \<or> (inputTypeOf el = ''number'' \<and> keys \<noteq> [] \<and> \<not> (\<exists>k \<in> set keys. spec_period_key k)))"





definition spec_typed_text :: "KeyData list \<Rightarrow> string" where
  "spec_typed_text keys = concat (map keyOrEmpty keys)"


subsection \<open>An engine and two elements for the examples\<close>










section \<open>Fullscreen overlay container (FullscreenOverlayContainer)\<close>















subsection \<open>From the words of the claim\<close>




subsection \<open>Pages for the examples\<close>






section \<open>Snack bar container (MatSnackBarContainer)\<close>

text \<open>
  \<open>panelClass\<close> of the configuration is absent, one class or an array of classes.
\<close>

datatype panel_class = NoPanelClass | PanelClass string | PanelClasses "string list"

record MatSnackBarConfig =
  panelClass :: panel_class
  horizontalPosition :: string
  verticalPosition :: string

datatype portal = ComponentPortal nat | TemplatePortal nat | DomPortal nat

datatype snack_error = Error string

text \<open>
  The container: its configuration, the class list of its host element, what its
  portal outlet has attached, and the global \<open>ngDevMode\<close> (\<open>None\<close> when undefined).
\<close>

record MatSnackBarContainer =
  snackBarConfig :: MatSnackBarConfig
  classList :: "string list"
  attachedPortal :: "portal option"
  ngDevMode :: "bool option"

definition classList_add :: "string \<Rightarrow> MatSnackBarContainer \<Rightarrow> MatSnackBarContainer" where
  "classList_add cssClass this =
     (if cssClass \<in> set (classList this) then this
      else this\<lparr>classList := classList this @ [cssClass]\<rparr>)"

text \<open>
  Modelled from the spec: the portal outlet (cdk/portal) is not among the sources.
  \<open>hasAttached()\<close> tells whether a portal is attached; attaching a portal records
  it and answers with a reference to it.
\<close>

definition hasAttached :: "MatSnackBarContainer \<Rightarrow> bool" where
  "hasAttached this = (attachedPortal this \<noteq> None)"

definition outlet_attach ::
  "portal \<Rightarrow> MatSnackBarContainer \<Rightarrow> (snack_error + portal) \<times> MatSnackBarContainer" where
  "outlet_attach p this = (Inr p, this\<lparr>attachedPortal := Some p\<rparr>)"

definition applySnackBarClasses :: "MatSnackBarContainer \<Rightarrow> MatSnackBarContainer" where
  "applySnackBarClasses this =
     (let panelClasses = panelClass (snackBarConfig this);
          this = (case panelClasses of
                    NoPanelClass \<Rightarrow> this
                  | PanelClasses cs \<Rightarrow> fold classList_add cs this
                  | PanelClass c \<Rightarrow> if c = [] then this else classList_add c this);
          this = (if horizontalPosition (snackBarConfig this) = ''center''
                  then classList_add ''mat-snack-bar-center'' this else this)
      in if verticalPosition (snackBarConfig this) = ''top''
         then classList_add ''mat-snack-bar-top'' this else this)"

text \<open>The assertion throws; the error is returned and the caller stops.\<close>

definition assertNotAttached :: "MatSnackBarContainer \<Rightarrow> snack_error option" where
  "assertNotAttached this =
     (if hasAttached this \<and> (ngDevMode this = None \<or> ngDevMode this = Some True)
      then Some (Error ''Attempting to attach snack bar content after content is already attached'')
      else None)"

definition attachComponentPortal ::
  "nat \<Rightarrow> MatSnackBarContainer \<Rightarrow> (snack_error + portal) \<times> MatSnackBarContainer" where
  "attachComponentPortal p this =
     (case assertNotAttached this of
        Some e \<Rightarrow> (Inl e, this)
      | None \<Rightarrow> outlet_attach (ComponentPortal p) (applySnackBarClasses this))"

definition attachTemplatePortal ::
  "nat \<Rightarrow> MatSnackBarContainer \<Rightarrow> (snack_error + portal) \<times> MatSnackBarContainer" where
  "attachTemplatePortal p this =
     (case assertNotAttached this of
        Some e \<Rightarrow> (Inl e, this)
      | None \<Rightarrow> outlet_attach (TemplatePortal p) (applySnackBarClasses this))"

definition attachDomPortal ::
  "nat \<Rightarrow> MatSnackBarContainer \<Rightarrow> (snack_error + portal) \<times> MatSnackBarContainer" where
  "attachDomPortal p this =
     (case assertNotAttached this of
        Some e \<Rightarrow> (Inl e, this)
      | None \<Rightarrow> outlet_attach (DomPortal p) (applySnackBarClasses this))"

definition example_snack_bar :: MatSnackBarContainer where
  "example_snack_bar =
     \<lparr>snackBarConfig = \<lparr>panelClass = PanelClasses [''warn'', ''wide''],
                         horizontalPosition = ''center'', verticalPosition = ''top''\<rparr>,
      classList = [''mat-snack-bar-container''],
      attachedPortal = Some (ComponentPortal 0),
      ngDevMode = None\<rparr>"

section \<open>Calendar (MatCalendar)\<close>

text \<open>
  Modelled from the spec: \<open>DateAdapter\<close> is not among the sources. A date is its
  position on the time line; \<open>compareDate\<close> is negative, zero or positive as the first
  date is before, equal to or after the second; \<open>clampDate\<close> answers with the lower
  bound for a date before it, else with the upper bound for a date after it, else with
  the date. An absent bound (null) does not bind.
\<close>

type_synonym date = int

definition compareDate :: "date \<Rightarrow> date \<Rightarrow> int" where
  "compareDate first second = first - second"

definition clampDate :: "date \<Rightarrow> date option \<Rightarrow> date option \<Rightarrow> date" where
  "clampDate d mn mx =
     (case mn of
        Some lo \<Rightarrow>
          if compareDate d lo < 0 then lo
          else (case mx of Some hi \<Rightarrow> if compareDate d hi > 0 then hi else d | None \<Rightarrow> d)
      | None \<Rightarrow> (case mx of Some hi \<Rightarrow> if compareDate d hi > 0 then hi else d | None \<Rightarrow> d))"

text \<open>
  The calendar as the setter of \<open>activeDate\<close> reads and writes it. \<open>stateChanges\<close>
  counts the calls of \<open>stateChanges.next()\<close>.
\<close>

record MatCalendar =
  minDate :: "date option"
  maxDate :: "date option"
  clampedActiveDate :: date
  stateChanges :: nat
  markedForCheck :: bool

definition activeDate :: "MatCalendar \<Rightarrow> date" where
  "activeDate this = clampedActiveDate this"

definition activeDate_set :: "date \<Rightarrow> MatCalendar \<Rightarrow> MatCalendar" where
  "activeDate_set v this =
     this\<lparr>clampedActiveDate := clampDate v (minDate this) (maxDate this),
          stateChanges := stateChanges this + 1,
          markedForCheck := True\<rparr>"

text \<open>From the words of the claim: not before the minimum and not after the maximum.\<close>

definition spec_within_bounds :: "MatCalendar \<Rightarrow> bool" where
  "spec_within_bounds this =
     ((case minDate this of Some lo \<Rightarrow> \<not> activeDate this < lo | None \<Rightarrow> True) \<and>
      (case maxDate this of Some hi \<Rightarrow> \<not> activeDate this > hi | None \<Rightarrow> True))"

definition crossed_calendar :: MatCalendar where
  "crossed_calendar =
     \<lparr>minDate = Some 10, maxDate = Some 5, clampedActiveDate = 7,
      stateChanges = 0, markedForCheck = False\<rparr>"

definition example_calendar :: MatCalendar where
  "example_calendar =
     \<lparr>minDate = Some 5, maxDate = Some 10, clampedActiveDate = 7,
      stateChanges = 0, markedForCheck = False\<rparr>"

chapter \<open>Properties\<close>

section \<open>Tree control\<close>

lemma fold_append_concat:
  "(\<And>c acc. c \<in> set cs \<Longrightarrow> f acc c = acc @ g c) \<Longrightarrow>
   fold (\<lambda>c acc. f acc c) cs acc = acc @ concat (map g cs)"
  by (induction cs arbitrary: acc) simp_all

lemma foldl_append_concat:
  "foldl (\<lambda>acc x. acc @ f x) a xs = a @ concat (map f xs)"
  by (induction xs arbitrary: a) simp_all

lemma helper_preorder:
  "arrays_at_every_level n \<Longrightarrow> getDescendants_helper acc n = acc @ spec_preorder n"
proof (induction acc n rule: getDescendants_helper.induct)
  case (1 descendants d cs)
  then obtain xs where cs: "cs = Array xs" and all: "list_all arrays_at_every_level xs"
    by (cases cs) simp_all
  have "fold (\<lambda>c acc. getDescendants_helper acc c) xs (descendants @ [Node d cs])
        = (descendants @ [Node d cs]) @ concat (map spec_preorder xs)"
  proof (rule fold_append_concat)
    fix c acc assume c: "c \<in> set xs"
    with all have "arrays_at_every_level c" by (simp add: list_all_iff)
    with 1(1)[OF refl cs c] show "getDescendants_helper acc c = acc @ spec_preorder c"
      by simp
  qed
  then show ?case by (simp add: cs)
qed

lemma child_smaller: "c \<in> set xs \<Longrightarrow> size c < size (Node d (Array xs))"
  using size_list_estimation'[of c xs "size c" size] by simp

lemma size_preorder: "m \<in> set (spec_preorder n) \<Longrightarrow> size m \<le> size n"
proof (induction n arbitrary: m rule: spec_preorder.induct)
  case (1 d cs)
  show ?case
  proof (cases "m = Node d cs")
    case True
    then show ?thesis by simp
  next
    case False
    with 1(2) obtain xs c where cs: "cs = Array xs" and c: "c \<in> set xs"
      and m: "m \<in> set (spec_preorder c)"
      by (cases cs) auto
    from 1(1)[OF cs c m] have "size m \<le> size c" .
    with child_smaller[OF c, of d] show ?thesis by (simp add: cs)
  qed
qed

lemma preorder_is_node_then_descendants:
  assumes "arrays_at_every_level n"
  shows "spec_preorder n = n # getDescendants n"
  using helper_preorder[OF assms, of "[]"]
  by (cases n) (simp add: getDescendants_def splice_from_def)

lemma getDescendants_strict:
  assumes "arrays_at_every_level n"
  shows "getDescendants n = spec_strict_descendants n"
  using preorder_is_node_then_descendants[OF assms]
  by (cases n) (simp add: spec_strict_descendants_def)

lemma strict_descendants_smaller:
  assumes "m \<in> set (spec_strict_descendants n)"
  shows "size m < size n"
proof -
  from assms obtain xs c where n: "getChildren n = Array xs" and c: "c \<in> set xs"
    and m: "m \<in> set (spec_preorder c)"
    by (cases "getChildren n") (auto simp: spec_strict_descendants_def)
  from child_smaller[OF c, of "payload n"] n have "size c < size n" by (cases n) simp
  with size_preorder[OF m] show ?thesis by simp
qed

lemma expandAll_selection:
  "selection (expansionModel (expandAll tc)) =
     trackByValue tc ` (\<Union>n \<in> set (dataNodes tc). set (getDescendants n) \<union> {n})"
  by (auto simp: expandAll_def Let_def select_def clear_def foldl_append_concat)

text \<open>
  C2. When \<open>getChildren\<close> answers with plain arrays, the selected set of the expansion
  model after \<open>expandAll()\<close> is exactly the \<open>trackBy\<close> values of the root nodes in
  \<open>dataNodes\<close> and of all their descendants; what was selected before the call does
  not appear in the result, since the model is cleared first.
\<close>

theorem expandAll_selects_all_nodes:
  assumes "list_all arrays_at_every_level (dataNodes tc)"
  shows "selection (expansionModel (expandAll tc)) =
           trackByValue tc ` (set (dataNodes tc)
              \<union> (\<Union>n \<in> set (dataNodes tc). set (spec_strict_descendants n)))"
proof -
  have "(\<Union>n \<in> set (dataNodes tc). set (getDescendants n) \<union> {n})
        = set (dataNodes tc) \<union> (\<Union>n \<in> set (dataNodes tc). set (spec_strict_descendants n))"
    using assms getDescendants_strict by (fastforce simp: list_all_iff)
  then show ?thesis by (simp only: expandAll_selection)
qed

theorem expandAll_selects_all_nodes_witness:
  "list_all arrays_at_every_level (dataNodes example_control)
   \<and> selection (expansionModel example_control) = {7, 9}
   \<and> selection (expansionModel (expandAll example_control)) = {1, 2, 3}"
proof -
  have a: "list_all arrays_at_every_level (dataNodes example_control)"
    by (simp add: example_control_def)
  have "selection (expansionModel (expandAll example_control)) =
          trackByValue example_control ` (set (dataNodes example_control)
              \<union> (\<Union>n \<in> set (dataNodes example_control). set (spec_strict_descendants n)))"
    using a by (rule expandAll_selects_all_nodes)
  also have "\<dots> = {1, 2, 3}"
    by (auto simp add: example_control_def spec_strict_descendants_def)
  finally show ?thesis using a by (simp add: example_control_def)
qed

text \<open>
  C3. When the children of a node are arrays at every level, \<open>getDescendants\<close> returns
  the strict descendants of the node in depth-first preorder: the preorder of the
  subtree is the node followed by the returned list, and the node itself is not in the
  returned list.
\<close>

theorem getDescendants_preorder:
  assumes "arrays_at_every_level n"
  shows "getDescendants n = spec_strict_descendants n
       \<and> spec_preorder n = n # getDescendants n
       \<and> n \<notin> set (getDescendants n)"
proof -
  have "n \<notin> set (spec_strict_descendants n)"
    using strict_descendants_smaller[of n n] by auto
  then show ?thesis
    using getDescendants_strict[OF assms] preorder_is_node_then_descendants[OF assms]
    by simp
qed

theorem getDescendants_preorder_witness:
  "arrays_at_every_level example_tree
   \<and> getDescendants example_tree
     = [Node 2 (Array [Node 3 (Array [])]), Node 3 (Array []), Node 4 (Array [])]"
proof -
  have a: "arrays_at_every_level example_tree"
    by (simp add: example_tree_def)
  from getDescendants_preorder[OF a]
  have "getDescendants example_tree = spec_strict_descendants example_tree"
    by (rule conjunct1)
  also have "\<dots> = [Node 2 (Array [Node 3 (Array [])]), Node 3 (Array []), Node 4 (Array [])]"
    by (simp add: spec_strict_descendants_def example_tree_def)
  finally show ?thesis using a by simp
qed

section \<open>Accordion items\<close>

lemma emit_items [simp]: "items (emit e w) = items w"
  by (simp add: emit_def)

lemma collapse_collapsed:
  "\<not> expanded (it :: CdkAccordionItem) \<Longrightarrow> it\<lparr>expanded := False\<rparr> = it"
  by (cases it) simp

lemma expanded_set_False_items:
  "items (expanded_set False j w) =
     (if j < length (items w) then (items w)[j := (items w ! j)\<lparr>expanded := False\<rparr>]
      else items w)"
proof (cases "j < length (items w) \<and> expanded (items w ! j)")
  case True
  then show ?thesis by (simp add: Let_def)
next
  case False
  then show ?thesis by (auto simp: Let_def collapse_collapsed)
qed

lemma listener_items:
  "items (listener j ident accordionId w) =
     (if j < length (items w) \<and> listens (items w ! j) ident accordionId
      then (items w)[j := (items w ! j)\<lparr>expanded := False\<rparr>] else items w)"
  by (simp add: listens_def expanded_set_False_items Let_def del: expanded_set.simps
           split: option.split)

lemma listens_expanded_update [simp]:
  "listens (it\<lparr>expanded := e\<rparr>) ident accordionId = listens it ident accordionId"
  by (simp add: listens_def split: option.split)

lemma fold_listener_items:
  "length (items (fold (\<lambda>j. listener j ident accordionId) js w)) = length (items w) \<and>
   (\<forall>k < length (items w).
      items (fold (\<lambda>j. listener j ident accordionId) js w) ! k =
        (if k \<in> set js \<and> listens (items w ! k) ident accordionId
         then (items w ! k)\<lparr>expanded := False\<rparr> else items w ! k))"
proof (induction js arbitrary: w)
  case Nil
  then show ?case by simp
next
  case (Cons j js)
  let ?w = "listener j ident accordionId w"
  have len: "length (items ?w) = length (items w)"
    by (simp add: listener_items del: listener.simps)
  have nth: "\<And>k. k < length (items w) \<Longrightarrow> items ?w ! k =
       (if k = j \<and> listens (items w ! k) ident accordionId
        then (items w ! k)\<lparr>expanded := False\<rparr> else items w ! k)"
    by (auto simp: listener_items nth_list_update simp del: listener.simps)
  from Cons.IH[of ?w] len nth show ?case
    by (auto simp del: listener.simps)
qed

lemma expanded_set_True_items:
  assumes i: "i < length (items w)" and closed: "\<not> expanded (items w ! i)"
    and k: "k < length (items w)"
  shows "items (expanded_set True i w) ! k =
       (if k = i then (items w ! i)\<lparr>expanded := True\<rparr>
        else if listens (items w ! k) (item_id (items w ! i))
                  (case accordion (items w ! i) of Some a \<Rightarrow> acc_id a
                   | None \<Rightarrow> item_id (items w ! i))
        then (items w ! k)\<lparr>expanded := False\<rparr> else items w ! k)"
proof -
  let ?it = "items w ! i"
  let ?acc = "case accordion ?it of Some a \<Rightarrow> acc_id a | None \<Rightarrow> item_id ?it"
  let ?w1 = "emit (Opened (item_id ?it)) (emit (ExpandedChange (item_id ?it) True)
               (w\<lparr>items := (items w)[i := ?it\<lparr>expanded := True\<rparr>]\<rparr>))"
  have eq: "items (expanded_set True i w) =
            items (fold (\<lambda>j. listener j (item_id ?it) ?acc) [0..<length (items w)] ?w1)"
    using i closed by (simp add: Let_def del: listener.simps)
  have len1: "length (items ?w1) = length (items w)" by simp
  have self: "\<not> listens (?it\<lparr>expanded := True\<rparr>) (item_id ?it) ?acc"
    by (simp add: listens_def split: option.split)
  from fold_listener_items[of "item_id ?it" ?acc "[0..<length (items w)]" ?w1] k
  have "items (expanded_set True i w) ! k =
        (if k \<in> set [0..<length (items w)] \<and> listens (items ?w1 ! k) (item_id ?it) ?acc
         then (items ?w1 ! k)\<lparr>expanded := False\<rparr> else items ?w1 ! k)"
    by (simp only: eq len1)
  then show ?thesis
    using k i self by (auto simp: nth_list_update)
qed

text \<open>
  C1. Let item \<open>j\<close> belong to an accordion \<open>a\<close> whose \<open>multi\<close> flag is false, and let
  item \<open>i\<close> with a different id belong to the same accordion. When the dispatcher
  notifies with the id of \<open>i\<close> and the id of the accordion, the listener of \<open>j\<close> leaves
  \<open>j\<close> collapsed. Hence, when \<open>i\<close> becomes expanded, \<open>i\<close> is expanded and \<open>j\<close> is not
  afterwards, and, the item ids being distinct, \<open>i\<close> is the only expanded item of the
  accordion.
\<close>

theorem single_selection_dispatch:
  assumes "i < length (items w)" and "j < length (items w)"
    and "accordion (items w ! i) = Some a" and "accordion (items w ! j) = Some a"
    and "\<not> multi a"
    and "item_id (items w ! j) \<noteq> item_id (items w ! i)"
  shows "\<not> expanded (items (listener j (item_id (items w ! i)) (acc_id a) w) ! j)
     \<and> (\<not> expanded (items w ! i) \<longrightarrow>
          expanded (items (expanded_set True i w) ! i) \<and>
          \<not> expanded (items (expanded_set True i w) ! j) \<and>
          (distinct (map item_id (items w)) \<longrightarrow>
             (\<forall>k < length (items w).
                accordion (items (expanded_set True i w) ! k) = Some a \<and>
                expanded (items (expanded_set True i w) ! k) \<longrightarrow> k = i)))"
proof -
  have lj: "listens (items w ! j) (item_id (items w ! i)) (acc_id a)"
    using assms by (simp add: listens_def)
  have 1: "\<not> expanded (items (listener j (item_id (items w ! i)) (acc_id a) w) ! j)"
    using assms(2) lj by (simp add: listener_items del: listener.simps)
  have 2: "expanded (items (expanded_set True i w) ! i) \<and>
          \<not> expanded (items (expanded_set True i w) ! j) \<and>
          (distinct (map item_id (items w)) \<longrightarrow>
             (\<forall>k < length (items w).
                accordion (items (expanded_set True i w) ! k) = Some a \<and>
                expanded (items (expanded_set True i w) ! k) \<longrightarrow> k = i))"
    if closed: "\<not> expanded (items w ! i)"
  proof (intro conjI impI allI)
    show "expanded (items (expanded_set True i w) ! i)"
      using expanded_set_True_items[OF assms(1) closed assms(1)] by simp
    have ji: "j \<noteq> i" using assms(6) by auto
    show "\<not> expanded (items (expanded_set True i w) ! j)"
      using expanded_set_True_items[OF assms(1) closed assms(2)] ji lj assms(3) by simp
    fix k assume d: "distinct (map item_id (items w))" and k: "k < length (items w)"
      and ke: "accordion (items (expanded_set True i w) ! k) = Some a \<and>
               expanded (items (expanded_set True i w) ! k)"
    show "k = i"
    proof (rule ccontr)
      assume ki: "k \<noteq> i"
      with d k assms(1) have "item_id (items w ! k) \<noteq> item_id (items w ! i)"
        by (auto simp: distinct_conv_nth)
      with ke ki assms(3,5) expanded_set_True_items[OF assms(1) closed k]
      show False by (auto simp: listens_def split: if_splits)
    qed
  qed
  from 1 2 show ?thesis by blast
qed

theorem single_selection_dispatch_witness:
  "1 < length (items example_page) \<and> 0 < length (items example_page)
   \<and> accordion (items example_page ! 1) = accordion (items example_page ! 0)
   \<and> item_id (items example_page ! 0) \<noteq> item_id (items example_page ! 1)
   \<and> expanded (items example_page ! 0) \<and> \<not> expanded (items example_page ! 1)
   \<and> expanded (items (expanded_set True 1 example_page) ! 1)
   \<and> \<not> expanded (items (expanded_set True 1 example_page) ! 0)"
proof -
  have h: "1 < length (items example_page)" "0 < length (items example_page)"
    "accordion (items example_page ! 1) = Some example_accordion"
    "accordion (items example_page ! 0) = Some example_accordion"
    "\<not> multi example_accordion"
    "item_id (items example_page ! 0) \<noteq> item_id (items example_page ! 1)"
    "expanded (items example_page ! 0)" "\<not> expanded (items example_page ! 1)"
    by (simp_all add: example_page_def example_accordion_def)
  from single_selection_dispatch[OF h(1) h(2) h(3) h(4) h(5) h(6)] h
  show ?thesis by simp
qed

text \<open>
  C8. For a disabled item, \<open>toggle()\<close>, \<open>open()\<close> and \<open>close()\<close> change nothing and
  emit nothing, and so does the action sent by \<open>openAll\<close>/\<open>closeAll\<close>. The
  dispatch is not guarded: when an enabled, collapsed sibling of the same accordion
  with \<open>multi\<close> false is opened, the disabled item is collapsed afterwards.
\<close>

theorem disabled_guard_scope:
  assumes "j < length (items w)" and "disabled (items w ! j)"
  shows "toggle j w = w \<and> open j w = w \<and> close j w = w \<and> openCloseAllAction j e w = w
     \<and> (\<forall>i a. i < length (items w) \<and> \<not> disabled (items w ! i)
            \<and> \<not> expanded (items w ! i)
            \<and> accordion (items w ! i) = Some a \<and> accordion (items w ! j) = Some a
            \<and> \<not> multi a \<and> item_id (items w ! j) \<noteq> item_id (items w ! i)
          \<longrightarrow> \<not> expanded (items (open i w) ! j))"
proof -
  have guarded: "toggle j w = w \<and> open j w = w \<and> close j w = w \<and> openCloseAllAction j e w = w"
    using assms by (simp add: toggle_def open_def close_def openCloseAllAction_def)
  have sibling: "\<not> expanded (items (open i w) ! j)"
    if "i < length (items w)" "\<not> disabled (items w ! i)" "\<not> expanded (items w ! i)"
       "accordion (items w ! i) = Some a" "accordion (items w ! j) = Some a"
       "\<not> multi a" "item_id (items w ! j) \<noteq> item_id (items w ! i)" for i a
  proof -
    have "j \<noteq> i" using that(7) by auto
    moreover have "listens (items w ! j) (item_id (items w ! i)) (acc_id a)"
      using that by (simp add: listens_def)
    ultimately show ?thesis
      using expanded_set_True_items[OF that(1) that(3) assms(1)] that
      by (simp add: open_def del: expanded_set.simps)
  qed
  from guarded sibling show ?thesis by blast
qed

theorem disabled_guard_scope_witness:
  "0 < length (items example_page) \<and> disabled (items example_page ! 0)
   \<and> expanded (items example_page ! 0)
   \<and> toggle 0 example_page = example_page \<and> open 0 example_page = example_page
   \<and> close 0 example_page = example_page
   \<and> openCloseAllAction 0 False example_page = example_page
   \<and> \<not> expanded (items (open 1 example_page) ! 0)"
proof -
  have h: "0 < length (items example_page)" "disabled (items example_page ! 0)"
    "expanded (items example_page ! 0)"
    by (simp_all add: example_page_def)
  have s: "1 < length (items example_page) \<and> \<not> disabled (items example_page ! 1)
            \<and> \<not> expanded (items example_page ! 1)
            \<and> accordion (items example_page ! 1) = Some example_accordion
            \<and> accordion (items example_page ! 0) = Some example_accordion
            \<and> \<not> multi example_accordion
            \<and> item_id (items example_page ! 0) \<noteq> item_id (items example_page ! 1)"
    by (simp add: example_page_def example_accordion_def)
  from disabled_guard_scope[OF h(1) h(2), of False] s h show ?thesis by blast
qed

section \<open>Stylesheet migration\<close>

lemma occurs_iff:
  assumes ne: "search \<noteq> []"
  shows "i \<in> set (findAllSubstringIndices input search) \<longleftrightarrow> spec_occurs_at input search i"
proof
  assume "i \<in> set (findAllSubstringIndices input search)"
  then have i: "i < length input" and t: "take (length search) (drop i input) = search"
    by (simp_all add: findAllSubstringIndices_def)
  from t have "length (take (length search) (drop i input)) = length search" by simp
  with i have le: "i + length search \<le> length input" by simp
  have "\<forall>j < length search. input ! (i + j) = search ! j"
  proof (intro allI impI)
    fix j assume j: "j < length search"
    have "search ! j = take (length search) (drop i input) ! j" using t by simp
    also have "\<dots> = input ! (i + j)" using j le by simp
    finally show "input ! (i + j) = search ! j" by simp
  qed
  with le show "spec_occurs_at input search i" by (simp add: spec_occurs_at_def)
next
  assume o: "spec_occurs_at input search i"
  then have le: "i + length search \<le> length input"
    and eq: "\<forall>j < length search. input ! (i + j) = search ! j"
    by (simp_all add: spec_occurs_at_def)
  from le ne have i: "i < length input" by (cases search) auto
  have "take (length search) (drop i input) = search"
    using le eq by (intro nth_equalityI) auto
  with i show "i \<in> set (findAllSubstringIndices input search)"
    by (simp add: findAllSubstringIndices_def)
qed

lemma fold_replaceInputName:
  "fold (\<lambda>s log. replaceInputName fp s w nn log) starts log =
   log @ concat (map (\<lambda>s. [(fp, Remove s w), (fp, InsertRight s nn)]) starts)"
  by (induction starts arbitrary: log) (simp_all add: replaceInputName_def)

lemma visitStylesheet_closed_form:
  "visitStylesheet data stylesheet log =
     log @ concat (map (spec_all_replacements stylesheet) data)"
  unfolding visitStylesheet_def
proof (rule fold_append_concat)
  fix name :: InputNameUpgradeData and acc :: edit_log
  show "(let currentSelector = ''['' @ replace name @ '']'';
             updatedSelector = ''['' @ replaceWith name @ '']''
         in fold (\<lambda>startOffset log. replaceInputName (filePath stylesheet) startOffset
                                     (length currentSelector) updatedSelector log)
                 (map (\<lambda>offset. start stylesheet + offset)
                      (findAllSubstringIndices (content stylesheet) currentSelector))
                 acc)
        = acc @ spec_all_replacements stylesheet name"
    unfolding Let_def fold_replaceInputName spec_all_replacements_def
    by (simp add: map_map comp_def spec_replacement_def[abs_def])
qed

lemma in_all_replacements:
  "e \<in> set (spec_all_replacements stylesheet name) \<longleftrightarrow>
     (\<exists>i. spec_occurs_at (content stylesheet) (''['' @ replace name @ '']'') i \<and>
          e \<in> set (spec_replacement stylesheet name i))"
proof -
  have ne: "''['' @ replace name @ '']'' \<noteq> []" by simp
  show ?thesis
    unfolding spec_all_replacements_def set_concat set_map occurs_iff[OF ne, symmetric]
    by blast
qed

text \<open>
  C4. For every entry of the upgrade data and every offset at which the selector
  \<open>[replace]\<close> occurs in the content of the stylesheet, the edits hold, next to each
  other, the removal of the selector's length at that offset (shifted by the start of
  the stylesheet) and the insertion of \<open>[replaceWith]\<close> at the same offset. The edits
  already requested are kept, and every edit added is one of these: no other part
  of the stylesheet is edited.
\<close>

theorem visitStylesheet_replaces_selectors:
  "(\<forall>name \<in> set data. \<forall>i.
      spec_occurs_at (content stylesheet) (''['' @ replace name @ '']'') i \<longrightarrow>
        (\<exists>before after. visitStylesheet data stylesheet log =
                          before @ spec_replacement stylesheet name i @ after))
   \<and> (\<exists>new. visitStylesheet data stylesheet log = log @ new \<and>
        (\<forall>e \<in> set new. \<exists>name \<in> set data. \<exists>i.
            spec_occurs_at (content stylesheet) (''['' @ replace name @ '']'') i \<and>
            e \<in> set (spec_replacement stylesheet name i)))"
proof (intro conjI ballI allI impI)
  fix name i
  assume name: "name \<in> set data"
    and occ: "spec_occurs_at (content stylesheet) (''['' @ replace name @ '']'') i"
  have ne: "''['' @ replace name @ '']'' \<noteq> []" by simp
  from occ have "i \<in> set (findAllSubstringIndices (content stylesheet) (''['' @ replace name @ '']''))"
    by (simp only: occurs_iff[OF ne])
  then obtain is1 is2 where
    "findAllSubstringIndices (content stylesheet) (''['' @ replace name @ '']'') = is1 @ i # is2"
    by (auto simp: in_set_conv_decomp)
  then have f: "spec_all_replacements stylesheet name =
                  concat (map (spec_replacement stylesheet name) is1)
                  @ spec_replacement stylesheet name i
                  @ concat (map (spec_replacement stylesheet name) is2)"
    by (simp add: spec_all_replacements_def)
  from name obtain d1 d2 where d: "data = d1 @ name # d2"
    by (auto simp: in_set_conv_decomp)
  have "visitStylesheet data stylesheet log =
          (log @ concat (map (spec_all_replacements stylesheet) d1)
               @ concat (map (spec_replacement stylesheet name) is1))
          @ spec_replacement stylesheet name i
          @ (concat (map (spec_replacement stylesheet name) is2)
               @ concat (map (spec_all_replacements stylesheet) d2))"
    unfolding visitStylesheet_closed_form d using f by simp
  then show "\<exists>before after. visitStylesheet data stylesheet log =
                              before @ spec_replacement stylesheet name i @ after"
    by blast
next
  have "\<forall>e \<in> set (concat (map (spec_all_replacements stylesheet) data)).
          \<exists>name \<in> set data. \<exists>i.
                spec_occurs_at (content stylesheet) (''['' @ replace name @ '']'') i \<and>
                e \<in> set (spec_replacement stylesheet name i)"
    unfolding set_concat set_map using in_all_replacements by blast
  then show "\<exists>new. visitStylesheet data stylesheet log = log @ new \<and>
            (\<forall>e \<in> set new. \<exists>name \<in> set data. \<exists>i.
                spec_occurs_at (content stylesheet) (''['' @ replace name @ '']'') i \<and>
                e \<in> set (spec_replacement stylesheet name i))"
    using visitStylesheet_closed_form[of data stylesheet log] by blast
qed

theorem visitStylesheet_replaces_selectors_witness:
  "example_name \<in> set [example_name]
   \<and> spec_occurs_at (content example_stylesheet) (''['' @ replace example_name @ '']'') 8
   \<and> (\<exists>before after. visitStylesheet [example_name] example_stylesheet [] =
         before @ [(''app.css'', Remove 108 3), (''app.css'', InsertRight 108 ''[xx]'')] @ after)
   \<and> visitStylesheet [example_name] example_stylesheet [] =
       [(''app.css'', Remove 101 3), (''app.css'', InsertRight 101 ''[xx]''),
        (''app.css'', Remove 108 3), (''app.css'', InsertRight 108 ''[xx]'')]"
proof -
  have n: "example_name \<in> set [example_name]" by simp
  have o: "spec_occurs_at (content example_stylesheet) (''['' @ replace example_name @ '']'') 8"
    by (simp add: spec_occurs_at_def example_stylesheet_def example_name_def
          less_Suc_eq nth_Cons')
  have r: "spec_replacement example_stylesheet example_name 8 =
             [(''app.css'', Remove 108 3), (''app.css'', InsertRight 108 ''[xx]'')]"
    by (simp add: spec_replacement_def example_stylesheet_def example_name_def)
  from visitStylesheet_replaces_selectors[of "[example_name]" example_stylesheet "[]"] n o
  have "\<exists>before after. visitStylesheet [example_name] example_stylesheet [] =
          before @ spec_replacement example_stylesheet example_name 8 @ after"
    by blast
  moreover have "visitStylesheet [example_name] example_stylesheet [] =
       [(''app.css'', Remove 101 3), (''app.css'', InsertRight 101 ''[xx]''),
        (''app.css'', Remove 108 3), (''app.css'', InsertRight 108 ''[xx]'')]"
    by (simp add: visitStylesheet_def findAllSubstringIndices_def replaceInputName_def
          example_stylesheet_def example_name_def upt_rec)
  ultimately show ?thesis using n o r by simp
qed

section \<open>Typing into an element\<close>

lemma enterValueIncrementally_iff:
  "enterValueIncrementally (inputTypeOf el) keys = spec_enters_incrementally el keys"
  by (auto simp: enterValueIncrementally_def spec_enters_incrementally_def
        incrementalInputTypes_def spec_period_key_def list_all_iff)






lemma foldl_keyOrEmpty:
  "foldl (\<lambda>v k. v @ keyOrEmpty k) a keys = a @ spec_typed_text keys"
  by (induction keys arbitrary: a) (simp_all add: spec_typed_text_def)




lemma typeInElement_at_once_throws:
  assumes "modifiersAndKeys = first # others"
    and "splitModifiers first modifiersAndKeys = (modifiers, rest)"
    and "assign el (spec_typed_text (keysOf js rest)) = None"
    and "\<not> spec_enters_incrementally el (keysOf js rest)"
  shows "typeInElement js el modifiersAndKeys = Inl ValueSetterError"
  using assms foldl_keyOrEmpty[of "[]" "keysOf js rest"]
  by (simp add: typeInElement_def enterValueIncrementally_iff
        triggerFocus_def assignValue_def Let_def)




section \<open>Fullscreen overlay container\<close>

















section \<open>Snack bar container\<close>

text \<open>
  C9. When the portal outlet has content attached and the code runs in dev mode
  (\<open>ngDevMode\<close> undefined or truthy), each of \<open>attachComponentPortal\<close>,
  \<open>attachTemplatePortal\<close> and \<open>attachDomPortal\<close> throws the error with the given
  message and leaves the container as it was: nothing is attached and no class is
  added.
\<close>

theorem attach_is_one_shot:
  assumes "hasAttached this" and "ngDevMode this = None \<or> ngDevMode this = Some True"
  shows "attachComponentPortal p this =
           (Inl (Error ''Attempting to attach snack bar content after content is already attached''),
            this)
       \<and> attachTemplatePortal p this =
           (Inl (Error ''Attempting to attach snack bar content after content is already attached''),
            this)
       \<and> attachDomPortal p this =
           (Inl (Error ''Attempting to attach snack bar content after content is already attached''),
            this)"
  using assms
  by (simp add: attachComponentPortal_def attachTemplatePortal_def attachDomPortal_def
        assertNotAttached_def)

theorem attach_is_one_shot_witness:
  "hasAttached example_snack_bar \<and> ngDevMode example_snack_bar = None
   \<and> fst (attachTemplatePortal 1 example_snack_bar) =
       Inl (Error ''Attempting to attach snack bar content after content is already attached'')
   \<and> classList (snd (attachTemplatePortal 1 example_snack_bar)) = [''mat-snack-bar-container'']
   \<and> attachedPortal (snd (attachTemplatePortal 1 example_snack_bar)) = Some (ComponentPortal 0)"
proof -
  have h: "hasAttached example_snack_bar"
    "ngDevMode example_snack_bar = None \<or> ngDevMode example_snack_bar = Some True"
    "ngDevMode example_snack_bar = None"
    by (simp_all add: example_snack_bar_def hasAttached_def)
  from attach_is_one_shot[OF h(1) h(2), of 1] h show ?thesis
    by (simp add: example_snack_bar_def)
qed

section \<open>Calendar\<close>

text \<open>
  C10, as stated, fails when the minimum date is after the maximum date: no date is
  then both not before the one and not after the other. With the minimum 10 and the
  maximum 5, assigning 0 stores 10, which is after the maximum.
\<close>

theorem activeDate_clamp_counterexample:
  "activeDate (activeDate_set 0 crossed_calendar) = 10
   \<and> maxDate (activeDate_set 0 crossed_calendar) = Some 5
   \<and> \<not> spec_within_bounds (activeDate_set 0 crossed_calendar)"
  by (simp add: spec_within_bounds_def activeDate_set_def crossed_calendar_def clampDate_def
        compareDate_def activeDate_def)

text \<open>
  C10, amended. Every assignment to \<open>activeDate\<close> stores
  \<open>clampDate(value, minDate, maxDate)\<close>; when the minimum date is not after the
  maximum date (or one of them is not set), the stored date is, right after the
  assignment, not before the minimum and not after the maximum, each when set.
\<close>

theorem activeDate_clamped:
  assumes "case (minDate this, maxDate this) of (Some lo, Some hi) \<Rightarrow> lo \<le> hi | _ \<Rightarrow> True"
  shows "activeDate (activeDate_set v this) = clampDate v (minDate this) (maxDate this)
       \<and> minDate (activeDate_set v this) = minDate this
       \<and> maxDate (activeDate_set v this) = maxDate this
       \<and> spec_within_bounds (activeDate_set v this)"
  using assms
  by (auto simp: spec_within_bounds_def activeDate_set_def clampDate_def compareDate_def
        activeDate_def split: option.splits)

theorem activeDate_clamped_witness:
  "(case (minDate example_calendar, maxDate example_calendar) of
      (Some lo, Some hi) \<Rightarrow> lo \<le> hi | _ \<Rightarrow> True)
   \<and> activeDate (activeDate_set 0 example_calendar) = 5
   \<and> activeDate (activeDate_set 12 example_calendar) = 10
   \<and> activeDate (activeDate_set 8 example_calendar) = 8
   \<and> spec_within_bounds (activeDate_set 0 example_calendar)"
proof -
  have h: "case (minDate example_calendar, maxDate example_calendar) of
             (Some lo, Some hi) \<Rightarrow> lo \<le> hi | _ \<Rightarrow> True"
    by (simp add: example_calendar_def)
  have m: "minDate example_calendar = Some 5" "maxDate example_calendar = Some 10"
    by (simp_all add: example_calendar_def)
  from activeDate_clamped[OF h, of 0] activeDate_clamped[OF h, of 12]
    activeDate_clamped[OF h, of 8] h
  show ?thesis by (simp add: m clampDate_def compareDate_def)
qed

end
